theory Spec2Isabelle
  imports Complex_Main "HOL-Library.Sublist"
begin

section \<open>Python primitives used by the two modules\<close>

text \<open>
  Exceptions are values. \<open>AssertionError\<close> is raised by a failing \<^verbatim>\<open>assert\<close>,
  \<open>ValueError\<close> by \<^verbatim>\<open>zip(..., strict=True)\<close>, by \<^verbatim>\<open>range\<close> with step 0 and by a metric
  on shapes that do not fit, \<open>IndexError\<close> by an index out of range. \<open>ProviderError\<close> is
  whatever the embedding model raises.
\<close>

datatype error = AssertionError | ValueError | IndexError | ProviderError

text \<open>
  A slice bound of a sequence of length \<open>n\<close>: a negative bound counts from the end, and
  every bound is clamped into \<open>0..n\<close>.
\<close>

definition slice_index :: "nat \<Rightarrow> int \<Rightarrow> nat" where
  "slice_index n i = (if i < 0 then nat (max 0 (i + int n)) else min (nat i) n)"

text \<open>\<^verbatim>\<open>xs[i:j]\<close>\<close>

definition py_slice :: "'a list \<Rightarrow> int \<Rightarrow> int \<Rightarrow> 'a list" where
  "py_slice xs i j =
     (let lo = slice_index (length xs) i; hi = slice_index (length xs) j
      in take (hi - lo) (drop lo xs))"

text \<open>\<^verbatim>\<open>range(start, stop, step)\<close> for a step other than 0 (step 0 raises, see \<open>split\<close>).\<close>

function py_range :: "int \<Rightarrow> int \<Rightarrow> int \<Rightarrow> int list" where
  "py_range start stop step =
     (if 0 < step \<and> start < stop then start # py_range (start + step) stop step
      else if step < 0 \<and> stop < start then start # py_range (start + step) stop step
      else [])"
  by pat_completeness auto
termination
  by (relation "measure (\<lambda>(start, stop, step).
        nat (if 0 < step then stop - start else start - stop))") auto

declare py_range.simps [simp del]

text \<open>
  A Python float, as far as its comparisons go: a finite number, an infinity, or \<^verbatim>\<open>nan\<close>.
  The finite float64 numbers are among the reals, and nothing below does arithmetic on
  them; \<^verbatim>\<open>0.0\<close> and \<^verbatim>\<open>-0.0\<close> compare equal and are the one value \<open>Finite 0\<close>.
\<close>

datatype pyfloat = Finite real | PosInf | NegInf | NaN

text \<open>\<^verbatim>\<open>a < b\<close> on floats: every comparison with \<^verbatim>\<open>nan\<close> is false.\<close>

fun float_lt :: "pyfloat \<Rightarrow> pyfloat \<Rightarrow> bool" where
  "float_lt NaN b = False"
| "float_lt a NaN = False"
| "float_lt (Finite x) (Finite y) = (x < y)"
| "float_lt (Finite x) PosInf = True"
| "float_lt (Finite x) NegInf = False"
| "float_lt PosInf b = False"
| "float_lt NegInf NegInf = False"
| "float_lt NegInf b = True"

text \<open>\<^verbatim>\<open>a <= b\<close> on floats.\<close>

definition float_le :: "pyfloat \<Rightarrow> pyfloat \<Rightarrow> bool" where
  "float_le a b = (a \<noteq> NaN \<and> b \<noteq> NaN \<and> \<not> float_lt b a)"

text \<open>
  \<^verbatim>\<open>sorted(xs, key=f, reverse=True)\<close> on float keys. The list is reversed, sorted stably in
  ascending order of the key, and reversed again, so that equal keys keep their original
  order. The sort compares keys with \<^verbatim>\<open><\<close> only. It is written here as the insertion sort
  that takes the items from the right and puts each one before the first item that is not
  less than it. On keys without \<^verbatim>\<open>nan\<close> every stable comparison sort returns the same list.
  With a \<^verbatim>\<open>nan\<close> key \<^verbatim>\<open><\<close> is no order, and which permutation comes out depends on the
  comparisons the sort makes; a list in which no key is less than the key to its right
  comes out as it went in, from this sort as from Python's.
\<close>

fun insort_lt :: "('a \<Rightarrow> pyfloat) \<Rightarrow> 'a \<Rightarrow> 'a list \<Rightarrow> 'a list" where
  "insort_lt f x [] = [x]"
| "insort_lt f x (y # ys) =
     (if float_lt (f y) (f x) then y # insort_lt f x ys else x # y # ys)"

definition sorted_reverse :: "('a \<Rightarrow> pyfloat) \<Rightarrow> 'a list \<Rightarrow> 'a list" where
  "sorted_reverse f xs = rev (foldr (insort_lt f) (rev xs) [])"

text \<open>
  A \<^verbatim>\<open>dict\<close> keeps its keys in the order of their first insertion:
  an association list with \<^verbatim>\<open>d[k] = v\<close> replacing in place or appending.
\<close>

fun dict_setitem :: "('k \<times> 'v) list \<Rightarrow> 'k \<Rightarrow> 'v \<Rightarrow> ('k \<times> 'v) list" where
  "dict_setitem [] k v = [(k, v)]"
| "dict_setitem ((k', v') # d) k v =
     (if k' = k then (k, v) # d else (k', v') # dict_setitem d k v)"

text \<open>A one-dimensional numpy array of floats, entry by entry.\<close>

type_synonym ndarray = "pyfloat list"

section \<open>text_utils: CharacterTextSplitter\<close>

record CharacterTextSplitter =
  chunk_size :: int
  chunk_overlap :: int

definition CharacterTextSplitter_init :: "int \<Rightarrow> int \<Rightarrow> error + CharacterTextSplitter" where
  "CharacterTextSplitter_init cs co =
     (if cs > co then Inr \<lparr>chunk_size = cs, chunk_overlap = co\<rparr> else Inl AssertionError)"

definition split :: "CharacterTextSplitter \<Rightarrow> string \<Rightarrow> error + string list" where
  "split self text =
     (let step = chunk_size self - chunk_overlap self
      in if step = 0 then Inl ValueError
         else Inr (map (\<lambda>i. py_slice text i (i + chunk_size self))
                       (py_range 0 (int (length text)) step)))"

section \<open>vectordatabase: VectorDatabase\<close>

text \<open>
  The class \<^verbatim>\<open>EmbeddingModel\<close> is imported from \<^verbatim>\<open>aimakerspace.openai_utils.embedding\<close>,
  a module that is not among the sources at hand. Its two methods are parameters of the
  model: each maps its input to vectors or fails.
\<close>

record EmbeddingModel =
  get_embedding :: "string \<Rightarrow> error + ndarray"
  async_get_embeddings :: "string list \<Rightarrow> error + ndarray list"

record VectorDatabase =
  vectors :: "(string \<times> ndarray) list"
  embedding_model :: EmbeddingModel

text \<open>
  Every method takes \<open>self\<close> last and returns the database it leaves behind next to its
  result, since an exception leaves behind whatever was written before it. The metric
  \<^verbatim>\<open>distance_measure\<close> is a parameter of every search: a function of two arrays that returns
  a float, \<^verbatim>\<open>nan\<close> included, or raises. The four metrics of the module compute their
  floats with numpy in float64, and that arithmetic is not modelled here: what a search
  does with a metric depends only on what the metric returns. The default metric,
  \<^verbatim>\<open>cosine_similarity\<close>, divides by the product of the two norms without a check and
  returns \<^verbatim>\<open>nan\<close> for a zero vector.
\<close>

definition VectorDatabase_init :: "EmbeddingModel \<Rightarrow> VectorDatabase" where
  "VectorDatabase_init em = \<lparr>vectors = [], embedding_model = em\<rparr>"

definition insert_db :: "string \<Rightarrow> ndarray \<Rightarrow> VectorDatabase \<Rightarrow> VectorDatabase" where
  "insert_db key vector self = self\<lparr>vectors := dict_setitem (vectors self) key vector\<rparr>"

text \<open>
  The list comprehension of \<open>search\<close>: it stops at the first metric call that raises, and
  keeps every score the metric returns, \<^verbatim>\<open>nan\<close> too.
\<close>

fun scores_of :: "ndarray \<Rightarrow> (ndarray \<Rightarrow> ndarray \<Rightarrow> error + pyfloat) \<Rightarrow>
    (string \<times> ndarray) list \<Rightarrow> error + (string \<times> pyfloat) list" where
  "scores_of query_vector distance_measure [] = Inr []"
| "scores_of query_vector distance_measure ((key, vector) # items) =
     (case distance_measure query_vector vector of
        Inl e \<Rightarrow> Inl e
      | Inr s \<Rightarrow>
          (case scores_of query_vector distance_measure items of
             Inl e \<Rightarrow> Inl e
           | Inr rest \<Rightarrow> Inr ((key, s) # rest)))"

definition search :: "ndarray \<Rightarrow> int \<Rightarrow> (ndarray \<Rightarrow> ndarray \<Rightarrow> error + pyfloat) \<Rightarrow>
    VectorDatabase \<Rightarrow> (error + (string \<times> pyfloat) list) \<times> VectorDatabase" where
  "search query_vector k distance_measure self =
     (case scores_of query_vector distance_measure (vectors self) of
        Inl e \<Rightarrow> (Inl e, self)
      | Inr scores \<Rightarrow> (Inr (py_slice (sorted_reverse snd scores) 0 k), self))"

text \<open>\<open>search_by_text\<close> with \<^verbatim>\<open>return_as_text\<close> at its default \<^verbatim>\<open>False\<close>.\<close>

definition search_by_text :: "string \<Rightarrow> int \<Rightarrow> (ndarray \<Rightarrow> ndarray \<Rightarrow> error + pyfloat) \<Rightarrow>
    VectorDatabase \<Rightarrow> (error + (string \<times> pyfloat) list) \<times> VectorDatabase" where
  "search_by_text query_text k distance_measure self =
     (case get_embedding (embedding_model self) query_text of
        Inl e \<Rightarrow> (Inl e, self)
      | Inr query_vector \<Rightarrow> search query_vector k distance_measure self)"

definition retrieve_from_key :: "string \<Rightarrow> VectorDatabase \<Rightarrow> ndarray option \<times> VectorDatabase" where
  "retrieve_from_key key self = (map_of (vectors self) key, self)"

text \<open>
  The loop of \<open>abuild_from_list\<close> over \<^verbatim>\<open>zip(list_of_text, embeddings, strict=True)\<close>:
  the zip is lazy, so it raises only when one side runs out before the other, after the
  loop body has run for every pair before that point.
\<close>

fun zip_strict_insert :: "string list \<Rightarrow> ndarray list \<Rightarrow> VectorDatabase \<Rightarrow>
    (error + unit) \<times> VectorDatabase" where
  "zip_strict_insert [] [] self = (Inr (), self)"
| "zip_strict_insert (text # texts) (embedding # embeddings) self =
     zip_strict_insert texts embeddings (insert_db text embedding self)"
| "zip_strict_insert [] (embedding # embeddings) self = (Inl ValueError, self)"
| "zip_strict_insert (text # texts) [] self = (Inl ValueError, self)"

definition abuild_from_list :: "string list \<Rightarrow> VectorDatabase \<Rightarrow>
    (error + unit) \<times> VectorDatabase" where
  "abuild_from_list list_of_text self =
     (case async_get_embeddings (embedding_model self) list_of_text of
        Inl e \<Rightarrow> (Inl e, self)
      | Inr embeddings \<Rightarrow> zip_strict_insert list_of_text embeddings self)"

text \<open>
  The \<^verbatim>\<open>for\<close> loop of \<open>search_by_text_with_token_budget\<close>, with its two accumulators;
  \<^verbatim>\<open>break\<close> returns them as they are.
\<close>

fun budget_loop :: "(string \<Rightarrow> int) \<Rightarrow> int \<Rightarrow> (string \<times> pyfloat) list \<Rightarrow>
    string list \<Rightarrow> int \<Rightarrow> string list \<times> int" where
  "budget_loop count_tokens limit [] selected_texts used_tokens =
     (selected_texts, used_tokens)"
| "budget_loop count_tokens limit ((text, score) # rest) selected_texts used_tokens =
     (let t = count_tokens text
      in if used_tokens + t > limit then (selected_texts, used_tokens)
         else budget_loop count_tokens limit rest (selected_texts @ [text]) (used_tokens + t))"

definition search_by_text_with_token_budget :: "string \<Rightarrow> int \<Rightarrow> (string \<Rightarrow> int) \<Rightarrow> int \<Rightarrow>
    (ndarray \<Rightarrow> ndarray \<Rightarrow> error + pyfloat) \<Rightarrow> int \<Rightarrow> VectorDatabase \<Rightarrow>
    (error + string list \<times> int \<times> (string \<times> pyfloat) list) \<times> VectorDatabase" where
  "search_by_text_with_token_budget query_text k count_tokens max_context_tokens
       distance_measure reserve_tokens self =
     (case search_by_text query_text k distance_measure self of
        (Inl e, self') \<Rightarrow> (Inl e, self')
      | (Inr scored_results, self') \<Rightarrow>
          (let limit = max 0 (max_context_tokens - reserve_tokens);
               (selected_texts, used_tokens) =
                  budget_loop count_tokens limit scored_results [] 0
           in (Inr (selected_texts, used_tokens, scored_results), self')))"

section \<open>Example data\<close>

text \<open>
  A metric that raises \<open>ValueError\<close> on two arrays of different lengths, as \<^verbatim>\<open>np.dot\<close> does,
  and otherwise returns the first entry of the stored vector (\<open>IndexError\<close> when there is
  none).
\<close>

definition first_entry :: "ndarray \<Rightarrow> ndarray \<Rightarrow> error + pyfloat" where
  "first_entry query_vector vector =
     (if length query_vector \<noteq> length vector then Inl ValueError
      else case vector of [] \<Rightarrow> Inl IndexError | x # rest \<Rightarrow> Inr x)"

text \<open>
  A model that embeds every text as the vector \<open>[1]\<close>; two small databases; and a token
  counter with the counts 50, 60 and 1000 for three keys and the text's length for every
  other text.
\<close>

definition demo_model :: EmbeddingModel where
  "demo_model = \<lparr>get_embedding = (\<lambda>t. Inr [Finite 1]),
                  async_get_embeddings = (\<lambda>ts. Inr (map (\<lambda>t. [Finite 1]) ts))\<rparr>"

definition demo_db :: VectorDatabase where
  "demo_db = \<lparr>vectors = [(''C'', [Finite 5]), (''A'', [Finite 9]), (''B'', [Finite 7])],
               embedding_model = demo_model\<rparr>"

definition demo_count :: "string \<Rightarrow> int" where
  "demo_count t = (if t = ''A'' then 50 else if t = ''B'' then 60
                   else if t = ''C'' then 1000 else int (length t))"

definition blank_db :: VectorDatabase where
  "blank_db = \<lparr>vectors = [(''A'', [Finite 1]), ('''', [Finite 2])],
                embedding_model = demo_model\<rparr>"

text \<open>A database in which two keys score the same.\<close>

definition tie_db :: VectorDatabase where
  "tie_db = \<lparr>vectors = [(''x'', [Finite 1]), (''y'', [Finite 2]), (''z'', [Finite 1])],
              embedding_model = demo_model\<rparr>"

text \<open>A database in which one stored vector scores \<^verbatim>\<open>nan\<close>.\<close>

definition nan_db :: VectorDatabase where
  "nan_db = \<lparr>vectors = [(''a'', [Finite 1]), (''z'', [NaN]), (''b'', [Finite 2])],
              embedding_model = demo_model\<rparr>"

text \<open>A model whose batched call returns one vector fewer than it was given texts.\<close>

definition short_model :: EmbeddingModel where
  "short_model = \<lparr>get_embedding = (\<lambda>t. Inr [Finite 1]),
                   async_get_embeddings = (\<lambda>ts. Inr (map (\<lambda>t. [Finite 1]) (butlast ts)))\<rparr>"

section \<open>CharacterTextSplitter: construction\<close>

text \<open>
  C8. Constructing a CharacterTextSplitter fails (with the assertion's error) exactly when
  \<open>chunk_size \<le> chunk_overlap\<close>; when \<open>chunk_size > chunk_overlap\<close> it succeeds and
  stores both parameters.
\<close>

theorem init_fails_iff:
  "((\<exists>e. CharacterTextSplitter_init cs co = Inl e) \<longleftrightarrow> cs \<le> co)
   \<and> (co < cs \<longrightarrow>
        CharacterTextSplitter_init cs co = Inr \<lparr>chunk_size = cs, chunk_overlap = co\<rparr>)"
  by (simp add: CharacterTextSplitter_init_def)

theorem init_fails_iff_witness:
  "(\<exists>e. CharacterTextSplitter_init 200 1000 = Inl e) \<and> (200::int) \<le> 1000
   \<and> (200::int) < 1000
   \<and> CharacterTextSplitter_init 1000 200 = Inr \<lparr>chunk_size = 1000, chunk_overlap = 200\<rparr>"
  using init_fails_iff [of 200 1000] init_fails_iff [of 1000 200]
  by simp

section \<open>The budgeted search\<close>

lemmas demo_defs = demo_model_def demo_db_def demo_count_def blank_db_def nan_db_def
  search_by_text_with_token_budget_def search_by_text_def search_def
  sorted_reverse_def py_slice_def slice_index_def first_entry_def












text \<open>
  C9. The reading operations \<open>search\<close>, \<open>search_by_text\<close>, \<open>retrieve_from_key\<close> and
  \<open>search_by_text_with_token_budget\<close> leave the database as it was, whether they return or
  raise: the key-to-vector mapping after the call is the one before it.
\<close>

theorem reads_leave_database:
  "snd (search query_vector k dm self) = self
   \<and> snd (search_by_text q k dm self) = self
   \<and> snd (retrieve_from_key key self) = self
   \<and> snd (search_by_text_with_token_budget q k c maxc dm reserve self) = self"
  by (simp add: search_by_text_with_token_budget_def search_by_text_def search_def
      retrieve_from_key_def Let_def split: sum.splits prod.splits)







section \<open>Ranked search\<close>

lemma py_slice_upto:
  "py_slice xs 0 k = (if k < 0 then take (length xs - nat (- k)) xs else take (nat k) xs)"
proof -
  have lo: "slice_index (length xs) 0 = 0" by (simp add: slice_index_def)
  have hi: "slice_index (length xs) k
      = (if k < 0 then length xs - nat (- k) else min (nat k) (length xs))"
  proof (cases "k < 0")
    case True
    then have "nat (max 0 (k + int (length xs))) = length xs - nat (- k)" by arith
    with True show ?thesis by (simp add: slice_index_def)
  next
    case False
    then show ?thesis by (simp add: slice_index_def)
  qed
  show ?thesis by (simp add: py_slice_def lo hi min_def)
qed

lemma scores_of_length:
  "scores_of qv dm items = Inr scores \<Longrightarrow> length scores = length items"
  by (induction items arbitrary: scores) (auto split: sum.splits)

lemma scores_of_keys:
  "scores_of qv dm items = Inr scores \<Longrightarrow> map fst scores = map fst items"
  by (induction items arbitrary: scores) (auto split: sum.splits)

lemma scores_of_values:
  "scores_of qv dm items = Inr scores \<Longrightarrow> s \<in> set scores \<Longrightarrow>
   \<exists>p\<in>set items. dm qv (snd p) = Inr (snd s)"
proof (induction items arbitrary: scores)
  case Nil
  then show ?case by simp
next
  case (Cons p items)
  obtain key vector where p: "p = (key, vector)" by (cases p)
  from Cons.prems(1) p obtain sc rest where
    sc: "dm qv vector = Inr sc" and rest: "scores_of qv dm items = Inr rest"
    and scores: "scores = (key, sc) # rest"
    by (auto split: sum.splits)
  show ?case
  proof (cases "s = (key, sc)")
    case True
    with sc p show ?thesis by auto
  next
    case False
    with Cons.prems(2) scores have "s \<in> set rest" by simp
    from Cons.IH [OF rest this] show ?thesis by auto
  qed
qed



lemma insort_lt_set [simp]: "set (insort_lt f x ys) = insert x (set ys)"
  by (induction ys) auto

lemma insort_lt_length [simp]: "length (insort_lt f x ys) = Suc (length ys)"
  by (induction ys) auto

lemma foldr_insort_lt_set [simp]: "set (foldr (insort_lt f) xs []) = set xs"
  by (induction xs) auto

lemma foldr_insort_lt_length [simp]: "length (foldr (insort_lt f) xs []) = length xs"
  by (induction xs) auto

lemma sorted_reverse_length [simp]: "length (sorted_reverse f xs) = length xs"
  by (simp add: sorted_reverse_def)

lemma sorted_reverse_set [simp]: "set (sorted_reverse f xs) = set xs"
  by (simp add: sorted_reverse_def)

lemma search_cases:
  "(\<exists>e. scores_of qv dm (vectors self) = Inl e \<and> search qv k dm self = (Inl e, self))
   \<or> (\<exists>scores. scores_of qv dm (vectors self) = Inr scores
         \<and> search qv k dm self = (Inr (py_slice (sorted_reverse snd scores) 0 k), self))"
  by (cases "scores_of qv dm (vectors self)") (simp_all add: search_def)


lemma demo_search_zero: "search [Finite 1] 0 first_entry demo_db = (Inr [], demo_db)"
  by (simp add: demo_defs)

lemma nan_search_zero: "search [Finite 1] 0 first_entry nan_db = (Inr [], nan_db)"
  by (simp add: demo_defs)





lemma float_lt_trans: "float_lt a b \<Longrightarrow> float_lt b c \<Longrightarrow> float_lt a c"
  by (cases a; cases b; cases c) auto

lemma float_lt_irrefl [simp]: "\<not> float_lt a a"
  by (cases a) auto

lemma float_lt_asym: "float_lt a b \<Longrightarrow> \<not> float_lt b a"
  by (cases a; cases b) auto

lemma float_lt_total:
  "a \<noteq> NaN \<Longrightarrow> b \<noteq> NaN \<Longrightarrow> \<not> float_lt a b \<Longrightarrow> \<not> float_lt b a \<Longrightarrow> a = b"
  by (cases a; cases b) auto

lemma insort_lt_tiebreak:
  assumes "sorted_wrt (\<lambda>a b. float_lt (f a) (f b) \<or> (f a = f b \<and> P a b)) ys"
    and "\<forall>y\<in>set ys. P x y"
    and "f x \<noteq> NaN" and "\<forall>y\<in>set ys. f y \<noteq> NaN"
  shows "sorted_wrt (\<lambda>a b. float_lt (f a) (f b) \<or> (f a = f b \<and> P a b)) (insort_lt f x ys)"
  using assms
proof (induction ys)
  case Nil
  then show ?case by simp
next
  case (Cons y ys)
  show ?case
  proof (cases "float_lt (f y) (f x)")
    case True
    with Cons show ?thesis by auto
  next
    case False
    with Cons.prems(3,4) have xy: "float_lt (f x) (f y) \<or> f x = f y"
      using float_lt_total [of "f x" "f y"] by auto
    have "\<forall>z\<in>set (y # ys). float_lt (f x) (f z) \<or> (f x = f z \<and> P x z)"
    proof
      fix z assume z: "z \<in> set (y # ys)"
      with Cons.prems(1) have yz: "float_lt (f y) (f z) \<or> f y = f z" by auto
      from z Cons.prems(2) have "P x z" by auto
      with xy yz show "float_lt (f x) (f z) \<or> (f x = f z \<and> P x z)"
        using float_lt_trans [of "f x" "f y" "f z"] by auto
    qed
    with False Cons.prems(1) show ?thesis by simp
  qed
qed

lemma foldr_insort_lt_tiebreak:
  "sorted_wrt P xs \<Longrightarrow> \<forall>x\<in>set xs. f x \<noteq> NaN \<Longrightarrow>
   sorted_wrt (\<lambda>a b. float_lt (f a) (f b) \<or> (f a = f b \<and> P a b)) (foldr (insort_lt f) xs [])"
  by (induction xs) (auto intro: insort_lt_tiebreak)

lemma sorted_wrt_positions:
  "sorted_wrt (\<lambda>a b. \<exists>i j. i < j \<and> j < length xs \<and> xs ! i = a \<and> xs ! j = b) xs"
  unfolding sorted_wrt_iff_nth_less by blast

lemma sorted_reverse_tiebreak:
  assumes "\<forall>x\<in>set xs. f x \<noteq> NaN"
  shows "sorted_wrt (\<lambda>a b. float_lt (f b) (f a)
      \<or> (f b = f a \<and> (\<exists>i j. i < j \<and> j < length xs \<and> xs ! i = a \<and> xs ! j = b)))
     (sorted_reverse f xs)"
proof -
  let ?P = "\<lambda>a b. \<exists>i j. i < j \<and> j < length xs \<and> xs ! i = a \<and> xs ! j = b"
  have "sorted_wrt (\<lambda>a b. ?P b a) (rev xs)"
    using sorted_wrt_positions [of xs] by (simp add: sorted_wrt_rev)
  moreover from assms have "\<forall>x\<in>set (rev xs). f x \<noteq> NaN" by simp
  ultimately have "sorted_wrt (\<lambda>a b. float_lt (f a) (f b) \<or> (f a = f b \<and> ?P b a))
      (foldr (insort_lt f) (rev xs) [])"
    by (rule foldr_insort_lt_tiebreak)
  then show ?thesis by (simp add: sorted_reverse_def sorted_wrt_rev)
qed

text \<open>
  A list in which no key is less than the key to its right comes out of the sort as it
  went in, whatever keys are \<^verbatim>\<open>nan\<close>.
\<close>

lemma foldr_insort_lt_unchanged:
  "successively (\<lambda>a b. \<not> float_lt (f b) (f a)) xs \<Longrightarrow> foldr (insort_lt f) xs [] = xs"
proof (induction xs)
  case Nil
  then show ?case by simp
next
  case (Cons x xs)
  then show ?case by (cases xs) (simp_all add: successively_Cons)
qed

lemma sorted_reverse_unchanged:
  "successively (\<lambda>a b. \<not> float_lt (f a) (f b)) xs \<Longrightarrow> sorted_reverse f xs = xs"
  by (simp add: sorted_reverse_def foldr_insort_lt_unchanged)

lemma py_slice_upto_take: "\<exists>m. py_slice xs 0 k = take m xs"
  by (auto simp: py_slice_upto)

lemma search_ranked:
  assumes "fst (search qv k dm self) = Inr r"
    and "\<forall>p\<in>set (vectors self). dm qv (snd p) \<noteq> Inr NaN"
  shows "(\<forall>i j. i < j \<and> j < length r \<longrightarrow> float_le (snd (r ! j)) (snd (r ! i)))
       \<and> (\<forall>i j. i < j \<and> j < length r \<and> snd (r ! i) = snd (r ! j) \<longrightarrow>
            (\<exists>i' j'. i' < j' \<and> j' < length (vectors self)
               \<and> fst (vectors self ! i') = fst (r ! i)
               \<and> fst (vectors self ! j') = fst (r ! j)))"
proof -
  from assms(1) search_cases [of qv dm self k] obtain scores
    where s: "scores_of qv dm (vectors self) = Inr scores"
      and r: "r = py_slice (sorted_reverse snd scores) 0 k"
    by auto
  from r py_slice_upto_take obtain m where m: "r = take m (sorted_reverse snd scores)"
    by blast
  have nonan: "\<forall>x\<in>set scores. snd x \<noteq> NaN"
  proof
    fix x assume "x \<in> set scores"
    from scores_of_values [OF s this] assms(2) show "snd x \<noteq> NaN" by force
  qed
  have r_nonan: "snd (r ! i) \<noteq> NaN" if "i < length r" for i
  proof -
    from that have "r ! i \<in> set r" by simp
    then have "r ! i \<in> set scores" unfolding m by (auto dest: in_set_takeD)
    with nonan show ?thesis by blast
  qed
  let ?Q = "\<lambda>a b. float_lt (snd b) (snd a)
      \<or> (snd b = snd a \<and> (\<exists>i j. i < j \<and> j < length scores \<and> scores ! i = a \<and> scores ! j = b))"
  have "sorted_wrt ?Q r"
    unfolding m using sorted_reverse_tiebreak [OF nonan] by (rule sorted_wrt_take)
  then have q: "\<And>i j. i < j \<Longrightarrow> j < length r \<Longrightarrow> ?Q (r ! i) (r ! j)"
    by (simp add: sorted_wrt_iff_nth_less)
  have keys: "\<And>i. i < length scores \<Longrightarrow> fst (scores ! i) = fst (vectors self ! i)"
    using scores_of_keys [OF s] scores_of_length [OF s]
    by (metis nth_map)
  show ?thesis
  proof (intro conjI allI impI)
    fix i j assume ij: "i < j \<and> j < length r"
    with q [of i j] have "float_lt (snd (r ! j)) (snd (r ! i)) \<or> snd (r ! j) = snd (r ! i)"
      by auto
    then have "\<not> float_lt (snd (r ! i)) (snd (r ! j))"
      using float_lt_asym [of "snd (r ! j)" "snd (r ! i)"] by auto
    with ij r_nonan [of i] r_nonan [of j] show "float_le (snd (r ! j)) (snd (r ! i))"
      by (simp add: float_le_def)
  next
    fix i j assume h: "i < j \<and> j < length r \<and> snd (r ! i) = snd (r ! j)"
    with q [of i j] obtain i' j' where
      "i' < j'" "j' < length scores" "scores ! i' = r ! i" "scores ! j' = r ! j"
      by auto
    with keys [of i'] keys [of j'] scores_of_length [OF s]
    show "\<exists>i' j'. i' < j' \<and> j' < length (vectors self)
               \<and> fst (vectors self ! i') = fst (r ! i)
               \<and> fst (vectors self ! j') = fst (r ! j)"
      by (intro exI [of _ i'] exI [of _ j']) auto
  qed
qed

lemma dict_setitem_keys:
  "map fst (dict_setitem d k v) = (if k \<in> set (map fst d) then map fst d else map fst d @ [k])"
  by (induction d) (auto simp del: set_map)

lemma dict_setitem_keys_distinct:
  "distinct (map fst d) \<Longrightarrow> distinct (map fst (dict_setitem d k v))"
  by (simp add: dict_setitem_keys)

text \<open>
  C5, as amended. When the metric returns no \<^verbatim>\<open>nan\<close> for any stored vector, whatever
  \<open>search\<close> returns is in descending order of score, and two results with equal scores
  appear in the order in which their keys stand in the store: there are store positions
  \<open>i' < j'\<close> holding the two keys, and when the keys of the store are distinct (as those of
  a dict are) these are the only positions holding them. The order of the store is the
  order of first insertion: \<open>insert\<close> leaves the keys as they stand when the key is among
  them, and puts a new key last. This holds for every \<open>k\<close>, in particular for \<open>k > 0\<close>.
\<close>

theorem search_sorted_stable:
  assumes "fst (search qv k dm self) = Inr r"
    and "\<forall>p\<in>set (vectors self). dm qv (snd p) \<noteq> Inr NaN"
  shows "(\<forall>i j. i < j \<and> j < length r \<longrightarrow> float_le (snd (r ! j)) (snd (r ! i)))
       \<and> (\<forall>i j. i < j \<and> j < length r \<and> snd (r ! i) = snd (r ! j) \<longrightarrow>
            (\<exists>i' j'. i' < j' \<and> j' < length (vectors self)
               \<and> fst (vectors self ! i') = fst (r ! i)
               \<and> fst (vectors self ! j') = fst (r ! j)))
       \<and> (distinct (map fst (vectors self)) \<longrightarrow>
            (\<forall>i j i' j'. i < j \<and> j < length r \<and> snd (r ! i) = snd (r ! j)
               \<and> i' < length (vectors self) \<and> fst (vectors self ! i') = fst (r ! i)
               \<and> j' < length (vectors self) \<and> fst (vectors self ! j') = fst (r ! j)
               \<longrightarrow> i' < j'))
       \<and> (\<forall>key vector. map fst (vectors (insert_db key vector self))
             = (if key \<in> set (map fst (vectors self)) then map fst (vectors self)
                else map fst (vectors self) @ [key]))"
proof -
  note ranked = search_ranked [OF assms]
  have "distinct (map fst (vectors self)) \<longrightarrow>
            (\<forall>i j i' j'. i < j \<and> j < length r \<and> snd (r ! i) = snd (r ! j)
               \<and> i' < length (vectors self) \<and> fst (vectors self ! i') = fst (r ! i)
               \<and> j' < length (vectors self) \<and> fst (vectors self ! j') = fst (r ! j)
               \<longrightarrow> i' < j')"
  proof (intro impI allI)
    fix i j i' j'
    assume d: "distinct (map fst (vectors self))"
      and h: "i < j \<and> j < length r \<and> snd (r ! i) = snd (r ! j)
               \<and> i' < length (vectors self) \<and> fst (vectors self ! i') = fst (r ! i)
               \<and> j' < length (vectors self) \<and> fst (vectors self ! j') = fst (r ! j)"
    with ranked obtain i0 j0 where p: "i0 < j0" "j0 < length (vectors self)"
      "fst (vectors self ! i0) = fst (r ! i)" "fst (vectors self ! j0) = fst (r ! j)"
      by blast
    from p h have lt: "i0 < length (map fst (vectors self))" "i' < length (map fst (vectors self))"
        "j0 < length (map fst (vectors self))" "j' < length (map fst (vectors self))"
      by simp_all
    from p h have "map fst (vectors self) ! i0 = map fst (vectors self) ! i'"
      and "map fst (vectors self) ! j0 = map fst (vectors self) ! j'"
      by simp_all
    with nth_eq_iff_index_eq [OF d lt(1) lt(2)] nth_eq_iff_index_eq [OF d lt(3) lt(4)]
    have "i0 = i'" "j0 = j'"
      by blast+
    with p show "i' < j'" by simp
  qed
  moreover have "\<forall>key vector. map fst (vectors (insert_db key vector self))
             = (if key \<in> set (map fst (vectors self)) then map fst (vectors self)
                else map fst (vectors self) @ [key])"
    by (simp add: insert_db_def dict_setitem_keys del: set_map)
  ultimately show ?thesis using ranked by blast
qed

lemma tie_search:
  "search [Finite 1] 3 first_entry tie_db
     = (Inr [(''y'', Finite 2), (''x'', Finite 1), (''z'', Finite 1)], tie_db)"
  by (simp add: tie_db_def demo_defs)

lemma nan_search:
  "search [Finite 1] 3 first_entry nan_db
     = (Inr [(''a'', Finite 1), (''z'', NaN), (''b'', Finite 2)], nan_db)"
  by (simp add: demo_defs)

theorem search_sorted_stable_witness:
  "fst (search [Finite 1] 3 first_entry tie_db)
     = Inr [(''y'', Finite 2), (''x'', Finite 1), (''z'', Finite 1)]
   \<and> first_entry [Finite 1] [Finite 1] \<noteq> Inr NaN
   \<and> first_entry [Finite 1] [Finite 2] \<noteq> Inr NaN
   \<and> float_le (snd ([(''y'', Finite 2), (''x'', Finite 1), (''z'', Finite 1)] ! 1))
        (snd ([(''y'', Finite 2), (''x'', Finite 1), (''z'', Finite 1)] ! 0))
   \<and> (\<exists>i' j'. i' < j' \<and> j' < length (vectors tie_db)
         \<and> fst (vectors tie_db ! i') = fst ([(''y'', Finite 2), (''x'', Finite 1), (''z'', Finite 1)] ! 1)
         \<and> fst (vectors tie_db ! j') = fst ([(''y'', Finite 2), (''x'', Finite 1), (''z'', Finite 1)] ! 2))
   \<and> distinct (map fst (vectors tie_db))
   \<and> map fst (vectors (insert_db ''y'' [Finite 3] tie_db)) = map fst (vectors tie_db)
   \<and> map fst (vectors (insert_db ''w'' [Finite 3] tie_db)) = map fst (vectors tie_db) @ [''w'']"
proof -
  have h: "fst (search [Finite 1] 3 first_entry tie_db)
      = Inr [(''y'', Finite 2), (''x'', Finite 1), (''z'', Finite 1)]"
    using tie_search by simp
  have v: "first_entry [Finite 1] [Finite 1] \<noteq> Inr NaN"
      "first_entry [Finite 1] [Finite 2] \<noteq> Inr NaN"
    by (simp_all add: first_entry_def)
  then have n: "\<forall>p\<in>set (vectors tie_db). first_entry [Finite 1] (snd p) \<noteq> Inr NaN"
    by (simp add: tie_db_def)
  note t = search_sorted_stable [OF h n]
  note descending = t [THEN conjunct1, rule_format]
  note ties = t [THEN conjunct2, THEN conjunct1, rule_format]
  note inserted = t [THEN conjunct2, THEN conjunct2, THEN conjunct2, rule_format]
  have a: "float_le (snd ([(''y'', Finite 2), (''x'', Finite 1), (''z'', Finite 1)] ! 1))
        (snd ([(''y'', Finite 2), (''x'', Finite 1), (''z'', Finite 1)] ! 0))"
    by (rule descending) simp
  have b: "\<exists>i' j'. i' < j' \<and> j' < length (vectors tie_db)
         \<and> fst (vectors tie_db ! i') = fst ([(''y'', Finite 2), (''x'', Finite 1), (''z'', Finite 1)] ! 1)
         \<and> fst (vectors tie_db ! j') = fst ([(''y'', Finite 2), (''x'', Finite 1), (''z'', Finite 1)] ! 2)"
    by (rule ties) simp
  have d: "distinct (map fst (vectors tie_db))" by (simp add: tie_db_def)
  have i1: "map fst (vectors (insert_db ''y'' [Finite 3] tie_db)) = map fst (vectors tie_db)"
    using inserted [of "''y''" "[Finite 3]"] by (simp add: tie_db_def)
  have i2: "map fst (vectors (insert_db ''w'' [Finite 3] tie_db))
      = map fst (vectors tie_db) @ [''w'']"
    using inserted [of "''w''" "[Finite 3]"] by (simp add: tie_db_def)
  show ?thesis
    using h v a b d i1 i2 by - (intro conjI; assumption)
qed

text \<open>
  C5 as stated fails when a score is \<^verbatim>\<open>nan\<close>: no key is less than the key to its right,
  so the sort returns the scores as they stand in the store, and the key of score 1 is
  ranked above the key of score 2.
\<close>

theorem search_nan_counterexample:
  "(0 :: int) < 3
   \<and> fst (search [Finite 1] 3 first_entry nan_db)
       = Inr [(''a'', Finite 1), (''z'', NaN), (''b'', Finite 2)]
   \<and> float_lt (snd ([(''a'', Finite 1), (''z'', NaN), (''b'', Finite 2)] ! 0))
        (snd ([(''a'', Finite 1), (''z'', NaN), (''b'', Finite 2)] ! 2))
   \<and> \<not> float_le (snd ([(''a'', Finite 1), (''z'', NaN), (''b'', Finite 2)] ! 2))
        (snd ([(''a'', Finite 1), (''z'', NaN), (''b'', Finite 2)] ! 0))"
  using nan_search by (simp add: float_le_def)

section \<open>Building the store from a list of texts\<close>

lemma map_of_dict_setitem: "map_of (dict_setitem d k v) = (map_of d)(k \<mapsto> v)"
  by (induction d) auto

lemma zip_strict_insert_eq:
  "zip_strict_insert texts embeddings self =
     (if length texts = length embeddings then Inr () else Inl ValueError,
      foldl (\<lambda>db (t, e). insert_db t e db) self (zip texts embeddings))"
  by (induction texts embeddings self rule: zip_strict_insert.induct) simp_all

lemma inserts_lookup_other:
  "key \<notin> fst ` set pairs \<Longrightarrow>
   map_of (vectors (foldl (\<lambda>db (t, e). insert_db t e db) self pairs)) key
     = map_of (vectors self) key"
  by (induction pairs arbitrary: self) (auto simp: insert_db_def map_of_dict_setitem)

lemma dict_setitem_key_set:
  "set (map fst (dict_setitem d k v)) = insert k (set (map fst d))"
  unfolding dict_setitem_keys by auto

lemma inserts_keys:
  "set (map fst (vectors (foldl (\<lambda>db (t, e). insert_db t e db) self pairs)))
     = set (map fst (vectors self)) \<union> fst ` set pairs"
  by (induction pairs arbitrary: self) (auto simp: insert_db_def dict_setitem_key_set simp del: set_map)

lemma fst_set_zip: "fst ` set (zip xs ys) = set (take (length ys) xs)"
  by (metis map_fst_zip_take set_map take_all_iff min_def length_take take_take order_refl)

text \<open>
  C3, as amended. When the embedding model returns a number of vectors other than the
  number of texts, \<open>abuild_from_list\<close> raises \<open>ValueError\<close> (nothing is truncated
  silently), but only after it has inserted every text that has a vector at its position:
  the store is the prior store with the first \<open>min (#texts) (#vectors)\<close> pairs inserted.
  Its keys are the prior keys and those texts, and every other key maps to what it mapped
  to before.
\<close>

theorem abuild_count_mismatch:
  assumes "async_get_embeddings (embedding_model self) list_of_text = Inr embeddings"
    and "length embeddings \<noteq> length list_of_text"
  shows "fst (abuild_from_list list_of_text self) = Inl ValueError
       \<and> snd (abuild_from_list list_of_text self)
           = foldl (\<lambda>db (t, e). insert_db t e db) self (zip list_of_text embeddings)
       \<and> set (map fst (vectors (snd (abuild_from_list list_of_text self))))
           = set (map fst (vectors self)) \<union> set (take (length embeddings) list_of_text)
       \<and> (\<forall>key. key \<notin> set (take (length embeddings) list_of_text) \<longrightarrow>
            map_of (vectors (snd (abuild_from_list list_of_text self))) key
              = map_of (vectors self) key)"
proof -
  from assms have r: "abuild_from_list list_of_text self =
      (Inl ValueError, foldl (\<lambda>db (t, e). insert_db t e db) self (zip list_of_text embeddings))"
    by (auto simp: abuild_from_list_def zip_strict_insert_eq)
  show ?thesis
    unfolding r by (simp add: inserts_keys inserts_lookup_other fst_set_zip del: set_map)
qed

lemma short_build:
  "abuild_from_list [''x'', ''y''] (VectorDatabase_init short_model)
     = (Inl ValueError, \<lparr>vectors = [(''x'', [Finite 1])], embedding_model = short_model\<rparr>)"
  by (simp add: abuild_from_list_def VectorDatabase_init_def short_model_def insert_db_def)

theorem abuild_count_mismatch_witness:
  "async_get_embeddings (embedding_model (VectorDatabase_init short_model)) [''x'', ''y'']
     = Inr [[Finite 1]]
   \<and> length [[Finite 1]] \<noteq> length [''x'', ''y'']
   \<and> fst (abuild_from_list [''x'', ''y''] (VectorDatabase_init short_model)) = Inl ValueError
   \<and> set (map fst (vectors (snd (abuild_from_list [''x'', ''y''] (VectorDatabase_init short_model)))))
       = set (map fst (vectors (VectorDatabase_init short_model)))
         \<union> set (take (length [[Finite 1]]) [''x'', ''y''])"
proof -
  have a: "async_get_embeddings (embedding_model (VectorDatabase_init short_model)) [''x'', ''y'']
     = Inr [[Finite 1]]"
    by (simp add: VectorDatabase_init_def short_model_def)
  have b: "length [[Finite 1]] \<noteq> length [''x'', ''y'']" by simp
  from abuild_count_mismatch [OF a b] a b show ?thesis by blast
qed

text \<open>
  C3 as stated fails: two texts and one returned vector raise \<open>ValueError\<close> and leave the
  first text in a store that was empty before the call.
\<close>

theorem abuild_partial_state_counterexample:
  "async_get_embeddings (embedding_model (VectorDatabase_init short_model)) [''x'', ''y'']
     = Inr [[Finite 1]]
   \<and> fst (abuild_from_list [''x'', ''y''] (VectorDatabase_init short_model)) = Inl ValueError
   \<and> vectors (VectorDatabase_init short_model) = []
   \<and> vectors (snd (abuild_from_list [''x'', ''y''] (VectorDatabase_init short_model)))
       = [(''x'', [Finite 1])]"
  by (simp add: short_build) (simp add: VectorDatabase_init_def short_model_def)

section \<open>CharacterTextSplitter: split\<close>

lemma py_range_empty: "0 < step \<Longrightarrow> stop \<le> start \<Longrightarrow> py_range start stop step = []"
  by (simp add: py_range.simps [of start stop step])

lemma py_range_nth:
  "0 < step \<Longrightarrow> j < length (py_range s n step) \<Longrightarrow> py_range s n step ! j = s + int j * step"
proof (induction s n step arbitrary: j rule: py_range.induct)
  case (1 start stop step)
  show ?case
  proof (cases "start < stop")
    case True
    with "1.prems" have unf: "py_range start stop step = start # py_range (start + step) stop step"
      by (simp add: py_range.simps [of start stop step])
    show ?thesis
    proof (cases j)
      case 0
      with unf show ?thesis by simp
    next
      case (Suc j')
      with "1.prems" unf have "j' < length (py_range (start + step) stop step)" by simp
      with "1.IH"(1) [of j'] "1.prems" True
      have "py_range (start + step) stop step ! j' = start + step + int j' * step" by simp
      with unf Suc show ?thesis by (simp add: algebra_simps)
    qed
  next
    case False
    with "1.prems" show ?thesis by (simp add: py_range.simps [of start stop step])
  qed
qed

lemma py_range_end:
  "0 < step \<Longrightarrow> s \<le> n \<Longrightarrow>
   n \<le> s + int (length (py_range s n step)) * step
   \<and> s + int (length (py_range s n step)) * step < n + step"
proof (induction s n step rule: py_range.induct)
  case (1 start stop step)
  show ?case
  proof (cases "start < stop")
    case True
    with "1.prems" have unf: "py_range start stop step = start # py_range (start + step) stop step"
      by (simp add: py_range.simps [of start stop step])
    show ?thesis
    proof (cases "start + step \<le> stop")
      case le: True
      with "1.IH"(1) "1.prems" True show ?thesis by (simp add: unf algebra_simps)
    next
      case gt: False
      with "1.prems" have "py_range (start + step) stop step = []"
        by (simp add: py_range_empty)
      with gt True show ?thesis by (simp add: unf)
    qed
  next
    case False
    with "1.prems" show ?thesis by (simp add: py_range_empty)
  qed
qed

lemma py_slice_chunk:
  assumes "0 \<le> i" "0 \<le> c"
  shows "py_slice xs i (i + c) = take (nat c) (drop (nat i) xs)"
proof -
  from assms have lo: "slice_index (length xs) i = min (nat i) (length xs)"
    and hi: "slice_index (length xs) (i + c) = min (nat i + nat c) (length xs)"
    by (simp_all add: slice_index_def nat_add_distrib)
  show ?thesis
    unfolding py_slice_def Let_def lo hi
    by (cases "nat i \<le> length xs") (auto simp: min_def)
qed

lemma chunk_layout:
  fixes st c :: nat
  assumes st: "0 < st" and c: "st \<le> c"
    and chunks: "chunks = map (\<lambda>i. py_slice (text :: string) i (i + int c)) (py_range 0 (int (length text)) (int st))"
  shows "(\<forall>j<length chunks. chunks ! j = take c (drop (j * st) text))
       \<and> (\<forall>p<length text. \<exists>j<length chunks. j * st \<le> p \<and> p < j * st + length (chunks ! j)
             \<and> chunks ! j ! (p - j * st) = text ! p)
       \<and> (text \<noteq> [] \<longrightarrow> chunks \<noteq> []
             \<and> (length chunks - 1) * st + length (last chunks) = length text)"
proof -
  let ?n = "length text"
  let ?r = "py_range 0 (int ?n) (int st)"
  let ?m = "length ?r"
  have len: "length chunks = ?m" by (simp add: chunks)
  have nth: "chunks ! j = take c (drop (j * st) text)" if "j < ?m" for j
  proof -
    from st that have "?r ! j = int (j * st)"
      by (simp add: py_range_nth)
    moreover have "py_slice text (int (j * st)) (int (j * st) + int c) = take c (drop (j * st) text)"
      using py_slice_chunk [of "int (j * st)" "int c" "text"] by (simp only: nat_int of_nat_0_le_iff)
    ultimately show ?thesis using that
      by (simp only: chunks nth_map)
  qed
  from st py_range_end [of "int st" 0 "int ?n"]
  have "int ?n \<le> int (?m * st)" and "int (?m * st) < int (?n + st)"
    by simp_all
  then have lo: "?n \<le> ?m * st" and hi: "?m * st < ?n + st"
    by (simp_all only: of_nat_le_iff of_nat_less_iff)
  have cover: "\<exists>j<length chunks. j * st \<le> p \<and> p < j * st + length (chunks ! j)
             \<and> chunks ! j ! (p - j * st) = text ! p" if p: "p < ?n" for p
  proof -
    define j where "j = p div st"
    define off where "off = j * st"
    from st have a: "off \<le> p" by (simp add: off_def j_def)
    from st have b: "p < off + st"
      unfolding off_def j_def by (metis add.commute mult.commute dividend_less_div_times)
    have "j < ?m"
    proof (rule ccontr)
      assume "\<not> j < ?m"
      then have "?m \<le> j" by simp
      then have "?m * st \<le> off" unfolding off_def by (rule mult_le_mono1)
      with a lo p show False by linarith
    qed
    moreover from a b p c have "p - off < length (take c (drop off text))"
      by (simp only: length_take length_drop)
    moreover from a b p c have "take c (drop off text) ! (p - off) = text ! p"
      by simp
    ultimately have "j < length chunks \<and> j * st \<le> p \<and> p < j * st + length (chunks ! j)
             \<and> chunks ! j ! (p - j * st) = text ! p"
      using a nth [of j] len unfolding off_def by auto
    then show ?thesis by blast
  qed
  have last_chunk: "chunks \<noteq> [] \<and> (length chunks - 1) * st + length (last chunks) = ?n"
    if ne: "text \<noteq> []"
  proof -
    from ne lo have m: "0 < ?m" by (cases "?m") auto
    then have ne': "chunks \<noteq> []" using len by auto
    from m obtain k where k: "?m = Suc k" by (cases "?m") auto
    from hi k have k_lt: "k * st < ?n" by simp
    from lo k have "?n \<le> k * st + st" by simp
    with c have short: "?n - k * st \<le> c" by simp
    from ne' have "last chunks = chunks ! (length chunks - 1)" by (simp add: last_conv_nth)
    with len k nth [of k] have "last chunks = take c (drop (k * st) text)" by simp
    with short k_lt have "length (last chunks) = ?n - k * st" by simp
    with k_lt len k ne' show ?thesis by simp
  qed
  from nth cover last_chunk len show ?thesis by simp
qed

text \<open>
  C6, as amended. For a splitter constructed with \<open>0 \<le> chunk_overlap < chunk_size\<close>, \<open>split\<close>
  returns chunks of which the \<open>j\<close>-th is the slice of \<open>chunk_size\<close> characters starting at
  offset \<open>j * (chunk_size - chunk_overlap)\<close>; every position of the text lies in some chunk,
  which holds the text's character there; and the last chunk ends exactly at the end of the
  text. For every constructed splitter, \<open>split\<close> of the empty string is the empty list.
\<close>

theorem split_covers_text:
  assumes "CharacterTextSplitter_init cs co = Inr sp"
  shows "split sp [] = Inr []
       \<and> (0 \<le> co \<longrightarrow> (\<exists>chunks. split sp text = Inr chunks
            \<and> (\<forall>j<length chunks. chunks ! j = take (nat cs) (drop (j * nat (cs - co)) text))
            \<and> (\<forall>p<length text. \<exists>j<length chunks.
                  j * nat (cs - co) \<le> p \<and> p < j * nat (cs - co) + length (chunks ! j)
                  \<and> chunks ! j ! (p - j * nat (cs - co)) = text ! p)
            \<and> (text \<noteq> [] \<longrightarrow> chunks \<noteq> []
                  \<and> (length chunks - 1) * nat (cs - co) + length (last chunks) = length text)))"
proof (intro conjI impI)
  from assms have sp: "sp = \<lparr>chunk_size = cs, chunk_overlap = co\<rparr>" and lt: "co < cs"
    by (auto simp: CharacterTextSplitter_init_def split: if_splits)
  from lt show "split sp [] = Inr []"
    by (simp add: sp split_def Let_def py_range_empty)
  assume co: "0 \<le> co"
  define st where "st = nat (cs - co)"
  define c where "c = nat cs"
  from lt co have st: "0 < st" "cs - co = int st" and c: "cs = int c" "st \<le> c"
    by (simp_all add: st_def c_def)
  define chunks where
    "chunks = map (\<lambda>i. py_slice text i (i + int c)) (py_range 0 (int (length text)) (int st))"
  from st c have "split sp text = Inr chunks"
    by (simp add: sp split_def Let_def chunks_def)
  with chunk_layout [OF st(1) c(2) chunks_def]
  show "\<exists>chunks. split sp text = Inr chunks
            \<and> (\<forall>j<length chunks. chunks ! j = take (nat cs) (drop (j * nat (cs - co)) text))
            \<and> (\<forall>p<length text. \<exists>j<length chunks.
                  j * nat (cs - co) \<le> p \<and> p < j * nat (cs - co) + length (chunks ! j)
                  \<and> chunks ! j ! (p - j * nat (cs - co)) = text ! p)
            \<and> (text \<noteq> [] \<longrightarrow> chunks \<noteq> []
                  \<and> (length chunks - 1) * nat (cs - co) + length (last chunks) = length text)"
    unfolding st_def [symmetric] c_def [symmetric] by blast
qed

lemmas split_eval = split_def Let_def py_range.simps py_slice_def slice_index_def

lemma split_demo:
  "split \<lparr>chunk_size = 4, chunk_overlap = 1\<rparr> ''abcdefgh'' = Inr [''abcd'', ''defg'', ''gh'']"
  by (simp add: split_eval)

lemma split_gap:
  "split \<lparr>chunk_size = 2, chunk_overlap = - 1\<rparr> ''abc'' = Inr [''ab'']"
  by (simp add: split_eval)

theorem split_covers_text_witness:
  "CharacterTextSplitter_init 4 1 = Inr \<lparr>chunk_size = 4, chunk_overlap = 1\<rparr>
   \<and> (0::int) \<le> 1
   \<and> split \<lparr>chunk_size = 4, chunk_overlap = 1\<rparr> [] = Inr []
   \<and> split \<lparr>chunk_size = 4, chunk_overlap = 1\<rparr> ''abcdefgh'' = Inr [''abcd'', ''defg'', ''gh'']
   \<and> ''abcdefgh'' \<noteq> []
   \<and> (length [''abcd'', ''defg'', ''gh''] - 1) * nat (4 - 1) + length (last [''abcd'', ''defg'', ''gh''])
       = length ''abcdefgh''"
proof -
  have i: "CharacterTextSplitter_init 4 1 = Inr \<lparr>chunk_size = 4, chunk_overlap = 1\<rparr>"
    by (simp add: CharacterTextSplitter_init_def)
  have z: "(0::int) \<le> 1" by simp
  have ne: "''abcdefgh'' \<noteq> []" by simp
  note t = split_covers_text [OF i, of "''abcdefgh''"]
  from t have e: "split \<lparr>chunk_size = 4, chunk_overlap = 1\<rparr> [] = Inr []" by blast
  from t z obtain chunks where
    c: "split \<lparr>chunk_size = 4, chunk_overlap = 1\<rparr> ''abcdefgh'' = Inr chunks"
    and l: "''abcdefgh'' \<noteq> [] \<longrightarrow> chunks \<noteq> []
       \<and> (length chunks - 1) * nat (4 - 1) + length (last chunks) = length ''abcdefgh''"
    by blast
  from c split_demo have "chunks = [''abcd'', ''defg'', ''gh'']" by simp
  with l ne have "(length [''abcd'', ''defg'', ''gh''] - 1) * nat (4 - 1)
       + length (last [''abcd'', ''defg'', ''gh'']) = length ''abcdefgh''"
    by blast
  with i z e split_demo ne show ?thesis by blast
qed

text \<open>
  C6 as stated fails for a negative overlap, which the constructor accepts: the stride
  \<open>chunk_size - chunk_overlap\<close> is then longer than a chunk, and the characters between
  two chunks are in no chunk.
\<close>

theorem split_negative_overlap_counterexample:
  "(- 1 :: int) < 2
   \<and> CharacterTextSplitter_init 2 (- 1) = Inr \<lparr>chunk_size = 2, chunk_overlap = - 1\<rparr>
   \<and> split \<lparr>chunk_size = 2, chunk_overlap = - 1\<rparr> ''abc'' = Inr [''ab'']
   \<and> length (concat [''ab'']) < length ''abc''"
  by (simp add: split_gap CharacterTextSplitter_init_def)

end
